theory Spec2Isabelle
  imports Complex_Main "HOL-Library.Log_Nat"
begin

section \<open>The async retry utility of src/index.ts\<close>

text \<open>
  The repository holds one function, \<^verbatim>\<open>retry(fn, opts)\<close>: it runs the promise factory
  \<^verbatim>\<open>fn\<close> until an attempt succeeds or the retries are used up, sleeping an
  exponentially growing delay between attempts and optionally racing every attempt
  against a timer.

  A JavaScript number is a binary64 value. The finite ones are rationals, and the model
  takes a number as a \<^typ>\<open>rat\<close>; the product of line 34 is rounded to binary64 as the
  machine rounds it. NaN, the infinities and a product that overflows are outside the
  model. The loop counter \<^verbatim>\<open>attempt\<close> starts at 0 and is only ever incremented, so it
  is a \<^typ>\<open>nat\<close>.
\<close>

subsection \<open>Binary64 arithmetic\<close>

text \<open>\<open>rne\<close> rounds to the nearest integer, a tie to the even one.\<close>

definition rne :: "rat \<Rightarrow> int" where
  "rne y =
     (let n = \<lfloor>y\<rfloor>; r = y - of_int n in
      if r < 1 / 2 then n else if 1 / 2 < r then n + 1 else if even n then n else n + 1)"

text \<open>
  \<open>binade x\<close> is the exponent \<open>k\<close> with \<open>2 ^ k \<le> \<bar>x\<bar> < 2 ^ (k + 1)\<close>, for \<open>x\<close> other than 0.
  With \<open>\<bar>x\<bar> = p / q\<close> it is the difference of the bit lengths of \<open>p\<close> and \<open>q\<close>, or one less.
\<close>

definition binade :: "rat \<Rightarrow> int" where
  "binade x =
     (case quotient_of \<bar>x\<bar> of
        (p, q) \<Rightarrow> (let k = bitlen p - bitlen q in if 2 powi k \<le> \<bar>x\<bar> then k else k - 1))"

text \<open>
  \<open>round64 x\<close> is the binary64 value nearest to \<open>x\<close>, a tie going to the even significand:
  a significand of 53 bits, and the spacing \<open>2 ^ - 1074\<close> of the subnormal numbers where
  \<open>x\<close> is smaller than \<open>2 ^ - 1022\<close>. \<open>times64\<close> is the product \<^verbatim>\<open>x * y\<close> of two numbers.
\<close>

definition round64 :: "rat \<Rightarrow> rat" where
  "round64 x =
     (if x = 0 then 0
      else (let e = max (binade x - 52) (- 1074) in of_int (rne (x / 2 powi e)) * 2 powi e))"

definition times64 :: "rat \<Rightarrow> rat \<Rightarrow> rat" where
  "times64 x y = round64 (x * y)"

subsection \<open>Thrown values, promises, the factory\<close>

text \<open>
  A thrown value is \<^verbatim>\<open>any\<close>. The code itself only ever creates \<^verbatim>\<open>new Error(msg)\<close>: an
  instance of the built-in class \<^verbatim>\<open>Error\<close> that carries the message and no other
  property of its own. \<open>JsError msg\<close> is such an object, whoever created it;
  \<open>Other x\<close> is any other thrown value.
\<close>

datatype 'e thrown = JsError string | Other 'e

text \<open>
  A promise is described by what becomes of it: it settles a duration (in ms, not negative)
  after it was created, rejected (\<open>Inl\<close>) or fulfilled (\<open>Inr\<close>), or it never settles.
  Duration 0 is a promise that is settled before any timer can fire.
\<close>

datatype ('e, 'a) promise = Settles rat "'e thrown + 'a" | Never

text \<open>
  One call \<^verbatim>\<open>fn()\<close> either throws synchronously or returns a promise. The factory may
  behave differently at every call: it is a function of the number of earlier calls.
\<close>

datatype ('e, 'a) invocation = Throws "'e thrown" | Returns "('e, 'a) promise"

type_synonym ('e, 'a) factory = "nat \<Rightarrow> ('e, 'a) invocation"

text \<open>
  \<^verbatim>\<open>onRetry(err, attempt)\<close> returns nothing; it may throw. The model of a callback gives
  the value it throws, or \<open>None\<close> when it returns normally.
\<close>

type_synonym 'e callback = "'e thrown \<Rightarrow> nat \<Rightarrow> 'e thrown option"

subsection \<open>The world: clock, timers and what was observed\<close>

datatype purpose = Backoff | Deadline

record 'e world =
  clock :: rat
  timers :: "(purpose \<times> rat) list"
  calls :: nat
  notified :: "('e thrown \<times> nat) list"
  slept :: "rat list"

text \<open>
  \<open>timers\<close> are the timers that are scheduled and have not fired, each with the time at
  which it fires; \<open>calls\<close> counts the calls of \<^verbatim>\<open>fn\<close>; \<open>notified\<close> and \<open>slept\<close>
  list the arguments of the calls of \<^verbatim>\<open>onRetry\<close> and of \<^verbatim>\<open>sleep\<close>, oldest first.
\<close>

definition init_world :: "'e world" where
  "init_world = \<lparr>clock = 0, timers = [], calls = 0, notified = [], slept = []\<rparr>"

text \<open>
  \<^verbatim>\<open>setTimeout(cb, ms)\<close> schedules a timer. The runtime (Node.js) takes a delay from 1 to
  \<open>2 ^ 31 - 1\<close> as it is and sets every other delay to 1 ms: \<open>timer_delay\<close>.
  The source never calls \<^verbatim>\<open>clearTimeout\<close>: a timer leaves the schedule only by firing,
  which it does when the clock reaches its time.
\<close>

definition timer_delay :: "rat \<Rightarrow> rat" where
  "timer_delay ms = (if 1 \<le> ms \<and> ms \<le> 2147483647 then ms else 1)"

definition setTimeout :: "purpose \<Rightarrow> rat \<Rightarrow> 'e world \<Rightarrow> 'e world" where
  "setTimeout k ms w = w\<lparr>timers := timers w @ [(k, clock w + timer_delay ms)]\<rparr>"

text \<open>
  Time passes: the timers that were due before the new time have fired. A timer that is due
  exactly then is still scheduled until it fires itself.
\<close>

definition elapse :: "rat \<Rightarrow> 'e world \<Rightarrow> 'e world" where
  "elapse dt w =
     w\<lparr>clock := clock w + dt,
       timers := filter (\<lambda>(k, t). clock w + dt \<le> t) (timers w)\<rparr>"

definition fire :: "'e world \<Rightarrow> 'e world" where
  "fire w = w\<lparr>timers := filter (\<lambda>(k, t). clock w < t) (timers w)\<rparr>"

text \<open>
  What the call awaits: the promise of the operation, or a promise that a timer of the call
  settles when it fires, \<open>d\<close> ms after it was set (the promises of lines 20 and 23).
\<close>

datatype ('e, 'a) awaited = By_operation "('e, 'a) promise" | By_timer rat "'e thrown + 'a"

text \<open>
  \<^verbatim>\<open>await\<close>: the outcome once the promise has settled; \<open>None\<close> when it never does. A
  promise settled by a timer is settled when that timer fires, the timers set before it
  and due at the same time having fired first.
\<close>

definition await :: "('e, 'a) awaited \<Rightarrow> 'e world \<Rightarrow> ('e thrown + 'a) option \<times> 'e world" where
  "await p w =
     (case p of
        By_operation Never \<Rightarrow> (None, w)
      | By_operation (Settles t r) \<Rightarrow> (Some r, elapse t w)
      | By_timer d r \<Rightarrow> (Some r, fire (elapse d w)))"

text \<open>
  Line 20, \<^verbatim>\<open>sleep = (ms) => new Promise(res => setTimeout(res, ms))\<close>, awaited at once
  in line 33: the call goes on when this timer has fired.
\<close>

definition sleep :: "rat \<Rightarrow> 'e world \<Rightarrow> 'e world" where
  "sleep ms w =
     fire (elapse (timer_delay ms) (setTimeout Backoff ms (w\<lparr>slept := slept w @ [ms]\<rparr>)))"

text \<open>
  \<^verbatim>\<open>Promise.race([p, q])\<close>, with \<open>q\<close> settled as \<open>r\<close> by a timer after \<open>d\<close> ms: the race
  settles as the first of the two that settles; when both settle at the same moment the one
  listed first wins.
\<close>

definition race :: "('e, 'a) promise \<Rightarrow> rat \<Rightarrow> 'e thrown + 'a \<Rightarrow> ('e, 'a) awaited" where
  "race p d r =
     (case p of
        Never \<Rightarrow> By_timer d r
      | Settles t s \<Rightarrow> if t \<le> d then By_operation p else By_timer d r)"

text \<open>
  Lines 21 to 24. \<^verbatim>\<open>ms == null\<close> holds for a missing timeout only, which is \<open>None\<close>.
  The second promise of the race is rejected when its timer fires.
\<close>

definition withTimeout ::
  "('e, 'a) promise \<Rightarrow> rat option \<Rightarrow> 'e world \<Rightarrow> ('e, 'a) awaited \<times> 'e world" where
  "withTimeout p ms w =
     (case ms of
        None \<Rightarrow> (By_operation p, w)
      | Some m \<Rightarrow>
          (race p (timer_delay m) (Inl (JsError ''timeout'')), setTimeout Deadline m w))"

subsection \<open>Options and their defaults\<close>

record 'e opts =
  retries :: "rat option"
  delayMs :: "rat option"
  factor :: "rat option"
  onRetry :: "'e callback option"
  timeoutMs :: "rat option"

text \<open>The constants that line 19 binds by destructuring \<^verbatim>\<open>opts || {}\<close>.\<close>

record 'e config =
  c_retries :: rat
  c_delayMs :: rat
  c_factor :: rat
  c_onRetry :: "'e callback option"
  c_timeoutMs :: "rat option"

definition no_opts :: "'e opts" where
  "no_opts = \<lparr>retries = None, delayMs = None, factor = None, onRetry = None, timeoutMs = None\<rparr>"

definition destructure :: "'e opts option \<Rightarrow> 'e config" where
  "destructure opts =
     (let ob = (case opts of None \<Rightarrow> no_opts | Some x \<Rightarrow> x) in
      \<lparr>c_retries = (case retries ob of None \<Rightarrow> 3 | Some r \<Rightarrow> r),
       c_delayMs = (case delayMs ob of None \<Rightarrow> 100 | Some d \<Rightarrow> d),
       c_factor = (case factor ob of None \<Rightarrow> 2 | Some f \<Rightarrow> f),
       c_onRetry = onRetry ob,
       c_timeoutMs = timeoutMs ob\<rparr>)"

subsection \<open>The retry loop\<close>

text \<open>
  How the call of \<^verbatim>\<open>retry\<close> ends. The three rejections are the three \<^verbatim>\<open>throw\<close>s the
  call can propagate: line 31 (the error of the last attempt), line 32 (thrown by
  \<^verbatim>\<open>onRetry\<close>, which the source does not catch) and line 39 (after the loop).
  \<open>Pending\<close> is a call whose promise never settles.
\<close>

datatype ('e, 'a) settlement =
    Fulfilled 'a
  | Threw_attempt "'e thrown"
  | Threw_onRetry "'e thrown"
  | Threw_fallback
  | Pending

text \<open>The value the caller catches.\<close>

fun rejection :: "('e, 'a) settlement \<Rightarrow> 'e thrown option" where
  "rejection (Fulfilled v) = None"
| "rejection (Threw_attempt e) = Some e"
| "rejection (Threw_onRetry e) = Some e"
| "rejection Threw_fallback = Some (JsError ''retry failed'')"
| "rejection Pending = None"

text \<open>
  Line 29, the body of \<^verbatim>\<open>try\<close>: \<^verbatim>\<open>await withTimeout(fn(), timeoutMs)\<close>. A synchronous
  throw of \<^verbatim>\<open>fn()\<close> reaches the \<^verbatim>\<open>catch\<close> before any timer is created.
\<close>

definition try_block ::
  "rat option \<Rightarrow> ('e, 'a) factory \<Rightarrow> 'e world \<Rightarrow> ('e thrown + 'a) option \<times> 'e world" where
  "try_block tm fn w =
     (let w1 = w\<lparr>calls := calls w + 1\<rparr> in
      case fn (calls w) of
        Throws e \<Rightarrow> (Some (Inl e), w1)
      | Returns p \<Rightarrow> (case withTimeout p tm w1 of (q, w2) \<Rightarrow> await q w2))"

text \<open>Line 32, \<^verbatim>\<open>onRetry?.(err, attempt + 1)\<close>.\<close>

definition call_onRetry ::
  "'e callback option \<Rightarrow> 'e thrown \<Rightarrow> nat \<Rightarrow> 'e world \<Rightarrow> 'e thrown option \<times> 'e world" where
  "call_onRetry cb err n w =
     (case cb of
        None \<Rightarrow> (None, w)
      | Some f \<Rightarrow> (f err n, w\<lparr>notified := notified w @ [(err, n)]\<rparr>))"

text \<open>Lines 27 to 39: the \<^verbatim>\<open>while\<close> loop and the \<^verbatim>\<open>throw\<close> after it.\<close>

function loop ::
  "'e config \<Rightarrow> ('e, 'a) factory \<Rightarrow> nat \<Rightarrow> rat \<Rightarrow> 'e world \<Rightarrow> ('e, 'a) settlement \<times> 'e world" where
  "loop c fn attempt delay w =
     (if of_nat attempt \<le> c_retries c then
        (case try_block (c_timeoutMs c) fn w of
           (None, w1) \<Rightarrow> (Pending, w1)
         | (Some (Inr v), w1) \<Rightarrow> (Fulfilled v, w1)
         | (Some (Inl err), w1) \<Rightarrow>
             if of_nat attempt = c_retries c then (Threw_attempt err, w1)
             else
               (case call_onRetry (c_onRetry c) err (attempt + 1) w1 of
                  (Some x, w2) \<Rightarrow> (Threw_onRetry x, w2)
                | (None, w2) \<Rightarrow>
                    loop c fn (attempt + 1) (of_int \<lfloor>times64 delay (c_factor c)\<rfloor>) (sleep delay w2)))
      else (Threw_fallback, w))"
  by pat_completeness auto
termination
  apply (relation "measure (\<lambda>(c, fn, attempt, delay, w). nat (\<lfloor>c_retries c\<rfloor> + 1) - attempt)")
   apply simp
  apply (simp add: le_floor_iff)
  apply linarith
  done

definition retry :: "('e, 'a) factory \<Rightarrow> 'e opts option \<Rightarrow> ('e, 'a) settlement \<times> 'e world" where
  "retry fn opts = (let c = destructure opts in loop c fn 0 (c_delayMs c) init_world)"

subsection \<open>Notions used to state the properties\<close>

text \<open>
  The outcome of one attempt: the call \<^verbatim>\<open>fn()\<close>, raced against the timeout when one is
  configured, as \<open>try_block\<close> awaits it. \<open>None\<close> is an attempt that never settles.
\<close>

definition attempt_outcome :: "rat option \<Rightarrow> ('e, 'a) invocation \<Rightarrow> ('e thrown + 'a) option" where
  "attempt_outcome tm iv =
     (case iv of
        Throws e \<Rightarrow> Some (Inl e)
      | Returns p \<Rightarrow> fst (await (fst (withTimeout p tm (init_world :: 'e world))) (init_world :: 'e world)))"

text \<open>
  \<open>quiet cb err n\<close>: the callback, when there is one, returns normally on these arguments.
  \<open>noted cb err n\<close>: the call of the callback that is recorded, when there is one.
\<close>

definition quiet :: "'e callback option \<Rightarrow> 'e thrown \<Rightarrow> nat \<Rightarrow> bool" where
  "quiet cb err n = (case cb of None \<Rightarrow> True | Some f \<Rightarrow> f err n = None)"

definition noted :: "'e callback option \<Rightarrow> 'e thrown \<Rightarrow> nat \<Rightarrow> ('e thrown \<times> nat) list" where
  "noted cb err n = (case cb of None \<Rightarrow> [] | Some f \<Rightarrow> [(err, n)])"

text \<open>
  The delays as lines 26 and 34 compute them: the first is \<^verbatim>\<open>delayMs\<close>, each later one
  is \<^verbatim>\<open>Math.floor(delay * factor)\<close> of the one before. Index 0 is the first delay.
\<close>

primrec backoff :: "rat \<Rightarrow> rat \<Rightarrow> nat \<Rightarrow> rat" where
  "backoff d f 0 = d"
| "backoff d f (Suc i) = of_int \<lfloor>times64 (backoff d f i) f\<rfloor>"

text \<open>
  \<open>is_double x\<close>: the rational \<open>x\<close> is a finite binary64 value. \<open>finite_delays d f i\<close>: the
  initial delay and the factor are such values and none of the first \<open>i\<close> products
  overflows; there the delays of the model are the delays of the machine.
\<close>

definition is_double :: "rat \<Rightarrow> bool" where
  "is_double x \<longleftrightarrow> round64 x = x \<and> \<bar>x\<bar> < 2 ^ 1024"

definition finite_delays :: "rat \<Rightarrow> rat \<Rightarrow> nat \<Rightarrow> bool" where
  "finite_delays d f i \<longleftrightarrow>
     is_double d \<and> is_double f \<and> (\<forall>j<i. \<bar>times64 (backoff d f j) f\<bar> < 2 ^ 1024)"

section \<open>Properties\<close>

subsection \<open>Values that binary64 holds exactly\<close>

lemma rne_of_int [simp]: "rne (of_int n) = n"
  by (simp add: rne_def)

lemma binade_lower:
  assumes "x \<noteq> 0"
  shows "2 powi binade x \<le> \<bar>x\<bar>"
proof -
  obtain p q where pq: "quotient_of \<bar>x\<bar> = (p, q)"
    by (cases "quotient_of \<bar>x\<bar>")
  then have q: "0 < q" and x: "\<bar>x\<bar> = of_int p / of_int q"
    by (auto simp: quotient_of_denom_pos quotient_of_div)
  from assms have "0 < \<bar>x\<bar>" by simp
  with x q have p: "0 < p"
    by (simp add: zero_less_divide_iff)
  let ?k = "bitlen p - bitlen q"
  show ?thesis
  proof (cases "2 powi ?k \<le> \<bar>x\<bar>")
    case True
    with pq show ?thesis by (simp add: binade_def)
  next
    case False
    with pq have b: "binade x = ?k - 1" by (simp add: binade_def)
    from bitlen_bounds [OF p] have lp: "(2 :: int) ^ nat (bitlen p - 1) \<le> p" by simp
    from bitlen_bounds [OF q] have uq: "q < (2 :: int) ^ nat (bitlen q)" by simp
    from p have bp: "1 \<le> bitlen p" by (simp add: bitlen_alt_def)
    have "(2 :: rat) powi (?k - 1) = 2 powi (bitlen p - 1) / 2 powi (bitlen q)"
      by (simp add: power_int_diff)
    also have "\<dots> = 2 ^ nat (bitlen p - 1) / 2 ^ nat (bitlen q)"
      using bp bitlen_nonneg [of q] by (simp add: power_int_def)
    also have "\<dots> \<le> of_int p / of_int q"
    proof -
      have "(2 :: rat) ^ nat (bitlen p - 1) \<le> of_int p"
        using lp by (metis of_int_le_iff of_int_numeral of_int_power)
      moreover have "(of_int q :: rat) \<le> 2 ^ nat (bitlen q)"
        using uq by (metis less_imp_le of_int_le_iff of_int_numeral of_int_power)
      ultimately show ?thesis
        using q p by (intro frac_le) simp_all
    qed
    finally show ?thesis by (simp add: b x)
  qed
qed

lemma round64_exact:
  assumes "x = of_int p / 2 ^ k" and "\<bar>p\<bar> < 2 ^ 53" and "k \<le> 1074"
  shows "round64 x = x"
proof (cases "x = 0")
  case True
  then show ?thesis by (simp add: round64_def)
next
  case False
  let ?e = "max (binade x - 52) (- 1074)"
  have "\<bar>x\<bar> < 2 powi (53 - int k)"
  proof -
    have "\<bar>x\<bar> = of_int \<bar>p\<bar> / 2 ^ k"
      by (simp add: assms(1))
    also have "\<dots> < 2 ^ 53 / 2 ^ k"
    proof -
      have "(of_int \<bar>p\<bar> :: rat) < 2 ^ 53"
        using assms(2) by (metis of_int_less_iff of_int_numeral of_int_power)
      then show ?thesis by (simp add: divide_strict_right_mono)
    qed
    also have "\<dots> = 2 powi (53 - int k)"
      by (simp add: power_int_diff)
    finally show ?thesis .
  qed
  with binade_lower [OF False] have lt: "(2 :: rat) powi binade x < 2 powi (53 - int k)"
    by simp
  have "binade x < 53 - int k"
  proof (rule ccontr)
    assume "\<not> binade x < 53 - int k"
    then have "(2 :: rat) powi (53 - int k) \<le> 2 powi binade x"
      by (intro power_int_increasing) simp_all
    with lt show False by simp
  qed
  with assms(3) have e: "?e \<le> - int k"
    by simp
  define j where "j = nat (- int k - ?e)"
  with e have j: "- ?e = int k + int j"
    by simp
  have "x / 2 powi ?e = x * 2 powi (- ?e)"
    by (simp add: power_int_minus field_simps)
  also have "\<dots> = x * (2 ^ k * 2 ^ j)"
  proof -
    have "(2 :: rat) powi (int k + int j) = 2 ^ k * 2 ^ j"
      by (metis of_nat_add power_add power_int_of_nat)
    then show ?thesis by (simp only: j)
  qed
  also have "\<dots> = of_int (p * 2 ^ j)"
    by (simp add: assms(1))
  finally have y: "x / 2 powi ?e = of_int (p * 2 ^ j)" .
  have "round64 x = of_int (rne (x / 2 powi ?e)) * 2 powi ?e"
    using False by (simp add: round64_def Let_def)
  also have "\<dots> = of_int (p * 2 ^ j) * 2 powi ?e"
    by (simp only: y rne_of_int)
  also have "\<dots> = x / 2 powi ?e * 2 powi ?e"
    by (simp only: y)
  also have "\<dots> = x"
    by simp
  finally show ?thesis .
qed

lemma round64_of_int: "\<bar>n\<bar> < 2 ^ 53 \<Longrightarrow> round64 (of_int n) = of_int n"
  using round64_exact [of "of_int n" n 0] by simp

subsection \<open>One iteration of the loop\<close>

declare loop.simps [simp del]

lemma try_block_outcome: "fst (try_block tm fn w) = attempt_outcome tm (fn (calls w))"
  by (simp add: try_block_def attempt_outcome_def withTimeout_def await_def Let_def
      split: invocation.splits option.splits promise.splits prod.splits awaited.splits)

lemma try_block_calls: "calls (snd (try_block tm fn w)) = calls w + 1"
  by (simp add: try_block_def withTimeout_def await_def Let_def elapse_def fire_def setTimeout_def
      split: invocation.splits option.splits promise.splits prod.splits awaited.splits)

lemma try_block_notified: "notified (snd (try_block tm fn w)) = notified w"
  by (simp add: try_block_def withTimeout_def await_def Let_def elapse_def fire_def setTimeout_def
      split: invocation.splits option.splits promise.splits prod.splits awaited.splits)

lemma try_block_slept: "slept (snd (try_block tm fn w)) = slept w"
  by (simp add: try_block_def withTimeout_def await_def Let_def elapse_def fire_def setTimeout_def
      split: invocation.splits option.splits promise.splits prod.splits awaited.splits)

lemma sleep_obs:
  "calls (sleep d w) = calls w" "notified (sleep d w) = notified w" "slept (sleep d w) = slept w @ [d]"
  by (simp_all add: sleep_def elapse_def fire_def setTimeout_def)

lemma call_onRetry_obs:
  "calls (snd (call_onRetry cb err n w)) = calls w"
  "slept (snd (call_onRetry cb err n w)) = slept w"
  "notified (snd (call_onRetry cb err n w)) = notified w @ noted cb err n"
  by (simp_all add: call_onRetry_def noted_def split: option.splits)

lemma call_onRetry_quiet: "quiet cb err n \<Longrightarrow> fst (call_onRetry cb err n w) = None"
  by (simp add: call_onRetry_def quiet_def split: option.splits)

lemma loop_exit: "\<not> of_nat a \<le> c_retries c \<Longrightarrow> loop c fn a d w = (Threw_fallback, w)"
  by (simp add: loop.simps [of c fn a d w])

lemma loop_pending:
  assumes "of_nat a \<le> c_retries c" and "attempt_outcome (c_timeoutMs c) (fn (calls w)) = None"
  shows "loop c fn a d w = (Pending, snd (try_block (c_timeoutMs c) fn w))"
proof -
  obtain o1 w1 where t: "try_block (c_timeoutMs c) fn w = (o1, w1)" by (cases "try_block (c_timeoutMs c) fn w")
  with assms(2) try_block_outcome [of "c_timeoutMs c" fn w] have "o1 = None" by simp
  with t assms(1) show ?thesis by (simp add: loop.simps [of c fn a d w])
qed

lemma loop_success:
  assumes "of_nat a \<le> c_retries c" and "attempt_outcome (c_timeoutMs c) (fn (calls w)) = Some (Inr v)"
  shows "loop c fn a d w = (Fulfilled v, snd (try_block (c_timeoutMs c) fn w))"
proof -
  obtain o1 w1 where t: "try_block (c_timeoutMs c) fn w = (o1, w1)" by (cases "try_block (c_timeoutMs c) fn w")
  with assms(2) try_block_outcome [of "c_timeoutMs c" fn w] have "o1 = Some (Inr v)" by simp
  with t assms(1) show ?thesis by (simp add: loop.simps [of c fn a d w])
qed

lemma loop_last_failure:
  assumes "of_nat a = c_retries c" and "attempt_outcome (c_timeoutMs c) (fn (calls w)) = Some (Inl err)"
  shows "loop c fn a d w = (Threw_attempt err, snd (try_block (c_timeoutMs c) fn w))"
proof -
  obtain o1 w1 where t: "try_block (c_timeoutMs c) fn w = (o1, w1)" by (cases "try_block (c_timeoutMs c) fn w")
  with assms(2) try_block_outcome [of "c_timeoutMs c" fn w] have "o1 = Some (Inl err)" by simp
  with t assms(1) show ?thesis by (simp add: loop.simps [of c fn a d w])
qed

lemma loop_onRetry_throws:
  assumes "of_nat a < c_retries c" and "attempt_outcome (c_timeoutMs c) (fn (calls w)) = Some (Inl err)"
    and "c_onRetry c = Some f" and "f err (a + 1) = Some x"
  shows "loop c fn a d w =
    (Threw_onRetry x, snd (call_onRetry (c_onRetry c) err (a + 1) (snd (try_block (c_timeoutMs c) fn w))))"
proof -
  obtain o1 w1 where t: "try_block (c_timeoutMs c) fn w = (o1, w1)" by (cases "try_block (c_timeoutMs c) fn w")
  with assms(2) try_block_outcome [of "c_timeoutMs c" fn w] have "o1 = Some (Inl err)" by simp
  with t assms(1,3,4) show ?thesis by (simp add: loop.simps [of c fn a d w] call_onRetry_def)
qed

lemma loop_retry:
  assumes "of_nat a < c_retries c" and "attempt_outcome (c_timeoutMs c) (fn (calls w)) = Some (Inl err)"
    and "quiet (c_onRetry c) err (a + 1)"
  shows "loop c fn a d w =
    loop c fn (a + 1) (of_int \<lfloor>times64 d (c_factor c)\<rfloor>)
      (sleep d (snd (call_onRetry (c_onRetry c) err (a + 1) (snd (try_block (c_timeoutMs c) fn w)))))"
proof -
  obtain o1 w1 where t: "try_block (c_timeoutMs c) fn w = (o1, w1)" by (cases "try_block (c_timeoutMs c) fn w")
  with assms(2) try_block_outcome [of "c_timeoutMs c" fn w] have o: "o1 = Some (Inl err)" by simp
  obtain o2 w2 where u: "call_onRetry (c_onRetry c) err (a + 1) w1 = (o2, w2)"
    by (cases "call_onRetry (c_onRetry c) err (a + 1) w1")
  with call_onRetry_quiet [OF assms(3), of w1] have "o2 = None" by simp
  with t o u assms(1) show ?thesis by (simp add: loop.simps [of c fn a d w])
qed


subsection \<open>A run of failed attempts\<close>

lemma run_failures:
  assumes "\<forall>i<k. attempt_outcome (c_timeoutMs c) (fn (calls w + i)) = Some (Inl (errs i))"
    and "\<forall>i<k. quiet (c_onRetry c) (errs i) (a + i + 1)"
    and "of_nat (a + k) \<le> c_retries c"
  shows "\<exists>w'. loop c fn a d w = loop c fn (a + k) (backoff d (c_factor c) k) w'
           \<and> calls w' = calls w + k
           \<and> slept w' = slept w @ map (backoff d (c_factor c)) [0..<k]
           \<and> notified w' = notified w @ concat (map (\<lambda>i. noted (c_onRetry c) (errs i) (a + i + 1)) [0..<k])"
  using assms
proof (induction k)
  case 0
  have "loop c fn a d w = loop c fn (a + 0) (backoff d (c_factor c) 0) w" by simp
  then show ?case by (intro exI [of _ w]) simp
next
  case (Suc k)
  from Suc.prems(3) have le: "of_nat (a + k) \<le> c_retries c" and lt: "of_nat (a + k) < c_retries c"
    by simp_all
  from Suc.IH [OF _ _ le] Suc.prems(1,2)
  obtain w' where eq: "loop c fn a d w = loop c fn (a + k) (backoff d (c_factor c) k) w'"
    and cw: "calls w' = calls w + k"
    and sw: "slept w' = slept w @ map (backoff d (c_factor c)) [0..<k]"
    and nw: "notified w' = notified w @ concat (map (\<lambda>i. noted (c_onRetry c) (errs i) (a + i + 1)) [0..<k])"
    by auto
  from Suc.prems(1) cw have f: "attempt_outcome (c_timeoutMs c) (fn (calls w')) = Some (Inl (errs k))"
    by simp
  from Suc.prems(2) have q: "quiet (c_onRetry c) (errs k) (a + k + 1)"
    by simp
  let ?w = "sleep (backoff d (c_factor c) k)
      (snd (call_onRetry (c_onRetry c) (errs k) (a + k + 1) (snd (try_block (c_timeoutMs c) fn w'))))"
  have "loop c fn (a + k) (backoff d (c_factor c) k) w'
      = loop c fn (a + Suc k) (backoff d (c_factor c) (Suc k)) ?w"
    using loop_retry [of "a + k" c fn w' "errs k" "backoff d (c_factor c) k"] lt f q by simp
  moreover have "calls ?w = calls w + Suc k"
    by (simp add: sleep_obs call_onRetry_obs try_block_calls cw)
  moreover have "slept ?w = slept w @ map (backoff d (c_factor c)) [0..<Suc k]"
    by (simp add: sleep_obs call_onRetry_obs try_block_slept sw)
  moreover have "notified ?w =
      notified w @ concat (map (\<lambda>i. noted (c_onRetry c) (errs i) (a + i + 1)) [0..<Suc k])"
    by (simp add: sleep_obs call_onRetry_obs try_block_notified nw)
  ultimately show ?case using eq by metis
qed


lemma noted_Some_concat:
  "concat (map (\<lambda>i. noted (Some f) (errs i) (a + i + 1)) [0..<k]) = map (\<lambda>i. (errs i, a + i + 1)) [0..<k]"
  by (induction k) (simp_all add: noted_def)


lemma init_world_obs:
  "calls init_world = 0" "slept init_world = []" "notified init_world = []"
  "timers init_world = []" "clock init_world = 0"
  by (simp_all add: init_world_def)

lemma run_from_start:
  assumes "\<forall>i<k. attempt_outcome (c_timeoutMs c) (fn i) = Some (Inl (errs i))"
    and "\<forall>i<k. quiet (c_onRetry c) (errs i) (i + 1)"
    and "of_nat k \<le> c_retries c"
  shows "\<exists>w'. loop c fn 0 d init_world = loop c fn k (backoff d (c_factor c) k) w'
           \<and> calls w' = k
           \<and> slept w' = map (backoff d (c_factor c)) [0..<k]
           \<and> notified w' = concat (map (\<lambda>i. noted (c_onRetry c) (errs i) (i + 1)) [0..<k])"
  using run_failures [of k c fn init_world errs 0 d] assms
  by (simp add: init_world_obs)

subsection \<open>Every run of the loop\<close>

lemma loop_cases [case_names exit pending success last throws again]:
  obtains
    "\<not> of_nat a \<le> c_retries c" "loop c fn a d w = (Threw_fallback, w)"
  | "of_nat a \<le> c_retries c" "attempt_outcome (c_timeoutMs c) (fn (calls w)) = None"
    "loop c fn a d w = (Pending, snd (try_block (c_timeoutMs c) fn w))"
  | v where "of_nat a \<le> c_retries c" "attempt_outcome (c_timeoutMs c) (fn (calls w)) = Some (Inr v)"
    "loop c fn a d w = (Fulfilled v, snd (try_block (c_timeoutMs c) fn w))"
  | err where "of_nat a = c_retries c" "attempt_outcome (c_timeoutMs c) (fn (calls w)) = Some (Inl err)"
    "loop c fn a d w = (Threw_attempt err, snd (try_block (c_timeoutMs c) fn w))"
  | err f x where "of_nat a < c_retries c"
    "attempt_outcome (c_timeoutMs c) (fn (calls w)) = Some (Inl err)"
    "c_onRetry c = Some f" "f err (a + 1) = Some x"
    "loop c fn a d w =
      (Threw_onRetry x, snd (call_onRetry (c_onRetry c) err (a + 1) (snd (try_block (c_timeoutMs c) fn w))))"
  | err where "of_nat a < c_retries c"
    "attempt_outcome (c_timeoutMs c) (fn (calls w)) = Some (Inl err)"
    "quiet (c_onRetry c) err (a + 1)"
    "loop c fn a d w =
      loop c fn (a + 1) (of_int \<lfloor>times64 d (c_factor c)\<rfloor>)
        (sleep d (snd (call_onRetry (c_onRetry c) err (a + 1) (snd (try_block (c_timeoutMs c) fn w)))))"
proof (cases "of_nat a \<le> c_retries c")
  case False
  show ?thesis by (rule that(1) [OF False loop_exit [OF False]])
next
  case le: True
  show ?thesis
  proof (cases "attempt_outcome (c_timeoutMs c) (fn (calls w))")
    case None
    show ?thesis by (rule that(2) [OF le None loop_pending [where a = a and c = c and fn = fn and w = w and d = d, OF le None]])
  next
    case (Some res)
    show ?thesis
    proof (cases res)
      case (Inr v)
      with Some have s: "attempt_outcome (c_timeoutMs c) (fn (calls w)) = Some (Inr v)" by simp
      show ?thesis by (rule that(3) [OF le s loop_success [where a = a and c = c and fn = fn and w = w and d = d, OF le s]])
    next
      case (Inl err)
      with Some have f: "attempt_outcome (c_timeoutMs c) (fn (calls w)) = Some (Inl err)" by simp
      show ?thesis
      proof (cases "of_nat a = c_retries c")
        case True
        show ?thesis by (rule that(4) [OF True f loop_last_failure [where a = a and c = c and fn = fn and w = w and d = d, OF True f]])
      next
        case False
        with le have lt: "of_nat a < c_retries c" by simp
        show ?thesis
        proof (cases "quiet (c_onRetry c) err (a + 1)")
          case True
          show ?thesis by (rule that(6) [OF lt f True loop_retry [where a = a and c = c and fn = fn and w = w and d = d, OF lt f True]])
        next
          case False
          then obtain g x where g: "c_onRetry c = Some g" and x: "g err (a + 1) = Some x"
            by (auto simp: quiet_def split: option.splits)
          show ?thesis by (rule that(5) [OF lt f g x loop_onRetry_throws [where a = a and c = c and fn = fn and w = w and d = d, OF lt f g x]])
        qed
      qed
    qed
  qed
qed

lemma backoff_shift: "backoff (of_int \<lfloor>times64 d f\<rfloor>) f i = backoff d f (Suc i)"
  by (induction i) simp_all

lemma map_backoff_shift:
  "d # map (backoff (of_int \<lfloor>times64 d f\<rfloor>) f) [0..<n] = map (backoff d f) [0..<Suc n]"
proof -
  have "map (backoff d f) [0..<Suc n] = backoff d f 0 # map (backoff d f \<circ> Suc) [0..<n]"
    by (simp only: upt_conv_Cons [of 0 "Suc n"] list.map map_Suc_upt [symmetric] map_map)
  then show ?thesis by (simp add: backoff_shift comp_def)
qed

lemma loop_slept:
  "\<exists>n. slept (snd (loop c fn a d w)) = slept w @ map (backoff d (c_factor c)) [0..<n]"
proof (induction "nat (\<lfloor>c_retries c\<rfloor> + 1) - a" arbitrary: a d w rule: less_induct)
  case less
  show ?case
  proof (cases rule: loop_cases [of a c fn d w])
    case exit
    then show ?thesis by (intro exI [of _ 0]) simp
  next
    case pending
    then show ?thesis by (intro exI [of _ 0]) (simp add: try_block_slept)
  next
    case (success v)
    then show ?thesis by (intro exI [of _ 0]) (simp add: try_block_slept)
  next
    case (last err)
    then show ?thesis by (intro exI [of _ 0]) (simp add: try_block_slept)
  next
    case (throws err f x)
    then show ?thesis by (intro exI [of _ 0]) (simp add: try_block_slept call_onRetry_obs)
  next
    case (again err)
    let ?w = "sleep d (snd (call_onRetry (c_onRetry c) err (a + 1) (snd (try_block (c_timeoutMs c) fn w))))"
    from again(1) have "int a \<le> \<lfloor>c_retries c\<rfloor>"
      by (simp add: le_floor_iff)
    then have "nat (\<lfloor>c_retries c\<rfloor> + 1) - (a + 1) < nat (\<lfloor>c_retries c\<rfloor> + 1) - a"
      by linarith
    from less [OF this, of "of_int \<lfloor>times64 d (c_factor c)\<rfloor>" ?w]
    obtain n where "slept (snd (loop c fn (a + 1) (of_int \<lfloor>times64 d (c_factor c)\<rfloor>) ?w))
        = slept ?w @ map (backoff (of_int \<lfloor>times64 d (c_factor c)\<rfloor>) (c_factor c)) [0..<n]"
      by blast
    moreover have "slept ?w = slept w @ [d]"
      by (simp add: sleep_obs call_onRetry_obs try_block_slept)
    ultimately have "slept (snd (loop c fn a d w)) = slept w @ map (backoff d (c_factor c)) [0..<Suc n]"
      using again(4) map_backoff_shift [of d "c_factor c" n] by simp
    then show ?thesis by blast
  qed
qed

lemma backoff_integers:
  assumes "\<forall>j\<le>i. \<bar>a * b ^ j\<bar> < 2 ^ 53"
  shows "backoff (of_int a) (of_int b) i = of_int (a * b ^ i)"
  using assms
proof (induction i)
  case 0
  then show ?case by simp
next
  case (Suc i)
  then have ih: "backoff (of_int a) (of_int b) i = of_int (a * b ^ i)"
    by simp
  from Suc.prems have "\<bar>a * b ^ Suc i\<bar> < 2 ^ 53"
    by blast
  then have "round64 (of_int (a * b ^ Suc i)) = of_int (a * b ^ Suc i)"
    by (rule round64_of_int)
  moreover have "(of_int (a * b ^ i) :: rat) * of_int b = of_int (a * b ^ Suc i)"
    by simp
  ultimately have "times64 (of_int (a * b ^ i)) (of_int b) = of_int (a * b ^ Suc i)"
    by (simp only: times64_def)
  with ih show ?case
    by (simp only: backoff.simps floor_of_int)
qed

lemma loop_classified:
  assumes "c_retries c = of_nat r" and "calls w = a" and "a \<le> r"
  shows "(\<exists>v i. a \<le> i \<and> i \<le> r \<and> fst (loop c fn a d w) = Fulfilled v
            \<and> attempt_outcome (c_timeoutMs c) (fn i) = Some (Inr v))
       \<or> (\<exists>e. fst (loop c fn a d w) = Threw_attempt e
            \<and> attempt_outcome (c_timeoutMs c) (fn r) = Some (Inl e)
            \<and> calls (snd (loop c fn a d w)) = r + 1)
       \<or> (\<exists>x i e f. a \<le> i \<and> i < r \<and> fst (loop c fn a d w) = Threw_onRetry x
            \<and> attempt_outcome (c_timeoutMs c) (fn i) = Some (Inl e)
            \<and> c_onRetry c = Some f \<and> f e (i + 1) = Some x)
       \<or> (\<exists>i. a \<le> i \<and> i \<le> r \<and> fst (loop c fn a d w) = Pending
            \<and> attempt_outcome (c_timeoutMs c) (fn i) = None)"
  using assms(2,3)
proof (induction "r - a" arbitrary: a d w rule: less_induct)
  case less
  note cw = \<open>calls w = a\<close> and ar = \<open>a \<le> r\<close>
  show ?case
  proof (cases rule: loop_cases [of a c fn d w])
    case exit
    with assms(1) ar show ?thesis by simp
  next
    case pending
    with cw ar show ?thesis by auto
  next
    case (success v)
    with cw ar show ?thesis by auto
  next
    case (last err)
    from last(1) assms(1) have "a = r" by simp
    with last cw show ?thesis by (simp add: try_block_calls)
  next
    case (throws err f x)
    from throws(1) assms(1) have "a < r" by simp
    with throws cw show ?thesis by auto
  next
    case (again err)
    from again(1) assms(1) have lt: "a < r" by simp
    let ?w = "sleep d (snd (call_onRetry (c_onRetry c) err (a + 1) (snd (try_block (c_timeoutMs c) fn w))))"
    have c: "calls ?w = a + 1"
      by (simp add: sleep_obs call_onRetry_obs try_block_calls cw)
    from lt have m: "r - (a + 1) < r - a" and le: "a + 1 \<le> r" by simp_all
    from less.hyps [OF m c le, of "of_int \<lfloor>times64 d (c_factor c)\<rfloor>"] again(4)
    show ?thesis
      by (elim disjE exE conjE) (simp; metis Suc_leD Suc_eq_plus1)+
  qed
qed

subsection \<open>The timer of one attempt\<close>

lemma try_block_race:
  assumes "fn (calls w) = Returns p"
  shows "try_block (Some m) fn w =
    await (race p (timer_delay m) (Inl (JsError ''timeout'')))
      (setTimeout Deadline m (w\<lparr>calls := calls w + 1\<rparr>))"
  using assms by (simp add: try_block_def withTimeout_def Let_def)

lemma timers_after_race:
  "timers (elapse dt (setTimeout k m w))
     = filter (\<lambda>(k, t). clock w + dt \<le> t) (timers w @ [(k, clock w + timer_delay m)])"
  "timers (fire (elapse dt (setTimeout k m w)))
     = filter (\<lambda>(k, t). clock w + dt < t) (timers w @ [(k, clock w + timer_delay m)])"
  by (auto simp: elapse_def fire_def setTimeout_def intro: filter_cong)

section \<open>The claims\<close>

text \<open>
  Claim C1, as the code has it. For every number of retries \<open>r \<ge> 0\<close>: when every attempt
  fails and the observer \<^verbatim>\<open>onRetry\<close>, if one is given, returns normally each time it is
  called, \<^verbatim>\<open>retry\<close> calls the factory exactly \<open>r + 1\<close> times and rejects with the very
  error of the last attempt (the throw of line 31). An attempt fails when \<^verbatim>\<open>fn()\<close>
  throws, when its promise is rejected, or when the configured timeout fires first. The
  count \<open>r + 1\<close> makes \<open>r\<close> a natural number.
\<close>

theorem retry_always_failing:
  assumes "c_retries (destructure opts) = of_nat r"
    and "\<forall>i\<le>r. attempt_outcome (c_timeoutMs (destructure opts)) (fn i) = Some (Inl (errs i))"
    and "\<forall>i<r. quiet (c_onRetry (destructure opts)) (errs i) (i + 1)"
  shows "fst (retry fn opts) = Threw_attempt (errs r)
       \<and> rejection (fst (retry fn opts)) = Some (errs r)
       \<and> calls (snd (retry fn opts)) = r + 1"
proof -
  let ?c = "destructure opts"
  have "\<exists>w'. loop ?c fn 0 (c_delayMs ?c) init_world = loop ?c fn (0 + r) (backoff (c_delayMs ?c) (c_factor ?c) r) w'
           \<and> calls w' = calls (init_world :: 'a world) + r
           \<and> slept w' = slept (init_world :: 'a world) @ map (backoff (c_delayMs ?c) (c_factor ?c)) [0..<r]
           \<and> notified w' = notified (init_world :: 'a world) @ concat (map (\<lambda>i. noted (c_onRetry ?c) (errs i) (0 + i + 1)) [0..<r])"
    using assms by (intro run_failures) (simp_all add: init_world_obs)
  then obtain w' where eq: "loop ?c fn 0 (c_delayMs ?c) init_world = loop ?c fn r (backoff (c_delayMs ?c) (c_factor ?c) r) w'"
    and cw: "calls w' = r"
    by (auto simp: init_world_obs)
  from assms(2) cw have f: "attempt_outcome (c_timeoutMs ?c) (fn (calls w')) = Some (Inl (errs r))"
    by simp
  have "loop ?c fn r (backoff (c_delayMs ?c) (c_factor ?c) r) w'
      = (Threw_attempt (errs r), snd (try_block (c_timeoutMs ?c) fn w'))"
    using assms(1) f by (intro loop_last_failure) simp_all
  with eq cw show ?thesis
    by (simp add: retry_def Let_def try_block_calls)
qed

theorem retry_always_failing_witness:
  "fst (retry (\<lambda>i. Returns (Settles 5 (Inl (Other i)))) (Some (no_opts\<lparr>retries := Some 2\<rparr>)))
     = (Threw_attempt (Other 2) :: (nat, unit) settlement)
   \<and> calls (snd (retry (\<lambda>i. Returns (Settles 5 (Inl (Other i)) :: (nat, unit) promise))
        (Some (no_opts\<lparr>retries := Some 2\<rparr>)))) = 3"
  using retry_always_failing [of "Some (no_opts\<lparr>retries := Some 2\<rparr>)" 2
      "\<lambda>i. Returns (Settles 5 (Inl (Other i)) :: (nat, unit) promise)" "\<lambda>i. Other i"]
  by (simp add: destructure_def no_opts_def attempt_outcome_def withTimeout_def await_def quiet_def)

text \<open>
  Without the condition on the observer the claim fails: line 32 is not guarded, so with
  one retry and an observer that throws, the factory is called once, not twice, and the
  call rejects with the observer's value, not with the error of an attempt.
\<close>

theorem always_failing_counterexample:
  "fst (retry (\<lambda>i. Throws (Other i))
        (Some (no_opts\<lparr>retries := Some 1, onRetry := Some (\<lambda>e n. Some (JsError ''observer''))\<rparr>)))
     = (Threw_onRetry (JsError ''observer'') :: (nat, unit) settlement)
   \<and> calls (snd (retry (\<lambda>i. Throws (Other i) :: (nat, unit) invocation)
        (Some (no_opts\<lparr>retries := Some 1, onRetry := Some (\<lambda>e n. Some (JsError ''observer''))\<rparr>)))) = 1"
  by (simp add: retry_def destructure_def no_opts_def loop.simps try_block_def call_onRetry_def
      init_world_def)




text \<open>
  Claim C6. When \<^verbatim>\<open>onRetry\<close> throws after a failed attempt that is not the last one
  (attempt \<open>j + 1\<close>, with \<open>j\<close> below the number of retries), the call rejects with the value
  the callback threw, and the loop is over: the factory was called \<open>j + 1\<close> times and no
  more, and only the \<open>j\<close> sleeps of the earlier retries took place, none after the
  throwing callback.
\<close>

theorem onRetry_throw_aborts:
  assumes "of_nat j < c_retries (destructure opts)"
    and "\<forall>i\<le>j. attempt_outcome (c_timeoutMs (destructure opts)) (fn i) = Some (Inl (errs i))"
    and "c_onRetry (destructure opts) = Some f"
    and "\<forall>i<j. f (errs i) (i + 1) = None"
    and "f (errs j) (j + 1) = Some x"
  shows "fst (retry fn opts) = Threw_onRetry x
       \<and> rejection (fst (retry fn opts)) = Some x
       \<and> calls (snd (retry fn opts)) = j + 1
       \<and> length (slept (snd (retry fn opts))) = j
       \<and> notified (snd (retry fn opts)) = map (\<lambda>i. (errs i, i + 1)) [0..<j + 1]"
proof -
  let ?c = "destructure opts"
  have fails: "\<forall>i<j. attempt_outcome (c_timeoutMs ?c) (fn i) = Some (Inl (errs i))"
    using assms(2) by simp
  have q: "\<forall>i<j. quiet (c_onRetry ?c) (errs i) (i + 1)"
    using assms(3,4) by (simp add: quiet_def)
  have le: "of_nat j \<le> c_retries ?c"
    using assms(1) by simp
  from run_from_start [OF fails q le, of "c_delayMs ?c"]
  obtain w' where eq: "loop ?c fn 0 (c_delayMs ?c) init_world = loop ?c fn j (backoff (c_delayMs ?c) (c_factor ?c) j) w'"
    and cw: "calls w' = j"
    and sw: "slept w' = map (backoff (c_delayMs ?c) (c_factor ?c)) [0..<j]"
    and nw: "notified w' = concat (map (\<lambda>i. noted (c_onRetry ?c) (errs i) (i + 1)) [0..<j])"
    by auto
  from assms(2) cw have e: "attempt_outcome (c_timeoutMs ?c) (fn (calls w')) = Some (Inl (errs j))"
    by simp
  let ?w = "snd (call_onRetry (c_onRetry ?c) (errs j) (j + 1) (snd (try_block (c_timeoutMs ?c) fn w')))"
  have fin: "loop ?c fn j (backoff (c_delayMs ?c) (c_factor ?c) j) w' = (Threw_onRetry x, ?w)"
    using assms(1) e assms(3) assms(5) by (rule loop_onRetry_throws)
  have n: "notified w' = map (\<lambda>i. (errs i, i + 1)) [0..<j]"
    using nw assms(3) noted_Some_concat [of f errs 0 j] by simp
  have "calls ?w = j + 1"
    by (simp add: call_onRetry_obs try_block_calls cw)
  moreover have "length (slept ?w) = j"
    by (simp add: call_onRetry_obs try_block_slept sw)
  moreover have "notified ?w = map (\<lambda>i. (errs i, i + 1)) [0..<j + 1]"
    by (simp add: call_onRetry_obs try_block_notified n assms(3) noted_def)
  ultimately show ?thesis
    using eq fin by (simp add: retry_def Let_def)
qed

theorem onRetry_throw_aborts_witness:
  "fst (retry (\<lambda>i. Throws (Other i))
        (Some (no_opts\<lparr>onRetry := Some (\<lambda>e n. if n = 2 then Some (JsError ''observer'') else None)\<rparr>)))
     = (Threw_onRetry (JsError ''observer'') :: (nat, unit) settlement)
   \<and> calls (snd (retry (\<lambda>i. Throws (Other i) :: (nat, unit) invocation)
        (Some (no_opts\<lparr>onRetry := Some (\<lambda>e n. if n = 2 then Some (JsError ''observer'') else None)\<rparr>)))) = 2
   \<and> length (slept (snd (retry (\<lambda>i. Throws (Other i) :: (nat, unit) invocation)
        (Some (no_opts\<lparr>onRetry := Some (\<lambda>e n. if n = 2 then Some (JsError ''observer'') else None)\<rparr>))))) = 1"
  using onRetry_throw_aborts [of 1
      "Some (no_opts\<lparr>onRetry := Some (\<lambda>e n. if n = 2 then Some (JsError ''observer'') else None)\<rparr>)"
      "\<lambda>i. Throws (Other i) :: (nat, unit) invocation" "\<lambda>i. Other i"
      "\<lambda>e n. if n = 2 then Some (JsError ''observer'') else None" "JsError ''observer''"]
  by (simp add: destructure_def no_opts_def attempt_outcome_def)

text \<open>
  Claim C8. Calling \<^verbatim>\<open>retry\<close> without options, or with an empty options object, is the same
  as calling it with \<^verbatim>\<open>{retries: 3, delayMs: 100, factor: 2}\<close>: the same settlement and the
  same world, that is the same calls, delays, notifications and timers.
\<close>

theorem omitted_options_are_the_defaults:
  "retry fn None = retry fn (Some no_opts)
   \<and> retry fn None =
       retry fn (Some \<lparr>retries = Some 3, delayMs = Some 100, factor = Some 2,
                       onRetry = None, timeoutMs = None\<rparr>)"
  by (simp add: retry_def destructure_def no_opts_def)

text \<open>
  Claim C10. With a negative number of retries the loop body never runs: the factory and
  \<^verbatim>\<open>onRetry\<close> are never called and the call rejects with the error of line 39,
  \<^verbatim>\<open>new Error('retry failed')\<close>. Nothing validates or clamps the value.
\<close>

theorem negative_retries_fall_through:
  assumes "c_retries (destructure opts) < 0"
  shows "fst (retry fn opts) = Threw_fallback
       \<and> rejection (fst (retry fn opts)) = Some (JsError ''retry failed'')
       \<and> calls (snd (retry fn opts)) = 0
       \<and> notified (snd (retry fn opts)) = []"
  using assms by (simp add: retry_def Let_def loop_exit init_world_obs)

theorem negative_retries_fall_through_witness:
  "fst (retry (\<lambda>i. Returns (Settles 0 (Inr ''ok''))) (Some (no_opts\<lparr>retries := Some (- 1)\<rparr>)))
     = (Threw_fallback :: (unit, string) settlement)
   \<and> calls (snd (retry (\<lambda>i. Returns (Settles 0 (Inr ''ok'')) :: (unit, string) invocation)
        (Some (no_opts\<lparr>retries := Some (- 1)\<rparr>)))) = 0"
  using negative_retries_fall_through [of "Some (no_opts\<lparr>retries := Some (- 1)\<rparr>)"
      "\<lambda>i. Returns (Settles 0 (Inr ''ok'')) :: (unit, string) invocation"]
  by (simp add: destructure_def no_opts_def)

text \<open>
  Claim C3, as the code has it. The delay slept before retry \<open>i + 1\<close> (index \<open>i\<close> of the
  list of sleeps, counted from 0) is the iterated value of lines 26 and 34: the first delay
  is \<^verbatim>\<open>delayMs\<close> itself and each later one is the floor of the binary64 product of the
  previous delay and the factor. It equals the closed form \<open>\<lfloor>d0 * f ^ i\<rfloor>\<close> when the
  initial delay and the factor are integers and the powers \<open>d0 * f ^ j\<close> up to \<open>j = i\<close> stay
  below \<open>2 ^ 53\<close> in size, where binary64 holds every product exactly. This holds in every
  run, whatever the operation and the callback do.
\<close>

theorem backoff_delays_iterated:
  assumes "i < length (slept (snd (retry fn opts)))"
  shows "(finite_delays (c_delayMs (destructure opts)) (c_factor (destructure opts)) i \<longrightarrow>
            slept (snd (retry fn opts)) ! i
              = backoff (c_delayMs (destructure opts)) (c_factor (destructure opts)) i)
       \<and> (c_delayMs (destructure opts) \<in> \<int> \<and> c_factor (destructure opts) \<in> \<int>
            \<and> (\<forall>j\<le>i. \<bar>c_delayMs (destructure opts) * c_factor (destructure opts) ^ j\<bar> < 2 ^ 53) \<longrightarrow>
            slept (snd (retry fn opts)) ! i
              = of_int \<lfloor>c_delayMs (destructure opts) * c_factor (destructure opts) ^ i\<rfloor>)"
proof -
  let ?c = "destructure opts"
  obtain n where n: "slept (snd (retry fn opts)) = map (backoff (c_delayMs ?c) (c_factor ?c)) [0..<n]"
    using loop_slept [of ?c fn 0 "c_delayMs ?c" init_world]
    by (auto simp: retry_def Let_def init_world_obs)
  with assms have "i < n" by simp
  with n have nth: "slept (snd (retry fn opts)) ! i = backoff (c_delayMs ?c) (c_factor ?c) i"
    by simp
  have "backoff (c_delayMs ?c) (c_factor ?c) i = of_int \<lfloor>c_delayMs ?c * c_factor ?c ^ i\<rfloor>"
    if "c_delayMs ?c \<in> \<int>" and "c_factor ?c \<in> \<int>"
      and bound: "\<forall>j\<le>i. \<bar>c_delayMs ?c * c_factor ?c ^ j\<bar> < 2 ^ 53"
  proof -
    from that obtain a b where ab: "c_delayMs ?c = of_int a" "c_factor ?c = of_int b"
      by (auto elim!: Ints_cases)
    have prod: "(of_int a :: rat) * of_int b ^ j = of_int (a * b ^ j)" for j
      by simp
    have "\<forall>j\<le>i. \<bar>a * b ^ j\<bar> < 2 ^ 53"
    proof (intro allI impI)
      fix j assume "j \<le> i"
      with bound have "\<bar>(of_int (a * b ^ j) :: rat)\<bar> < 2 ^ 53"
        by (simp only: ab prod)
      then have "(of_int \<bar>a * b ^ j\<bar> :: rat) < of_int (2 ^ 53)"
        by simp
      then show "\<bar>a * b ^ j\<bar> < 2 ^ 53"
        by (simp only: of_int_less_iff)
    qed
    then have "backoff (of_int a) (of_int b) i = of_int (a * b ^ i)"
      by (rule backoff_integers)
    moreover have "\<lfloor>(of_int a :: rat) * of_int b ^ i\<rfloor> = a * b ^ i"
      by (simp only: prod floor_of_int)
    ultimately show ?thesis
      by (simp only: ab)
  qed
  with nth show ?thesis by simp
qed

theorem backoff_delays_iterated_witness:
  "2 < length (slept (snd (retry (\<lambda>i. Throws (Other i) :: (nat, unit) invocation) None)))
   \<and> slept (snd (retry (\<lambda>i. Throws (Other i) :: (nat, unit) invocation) None)) ! 2
       = backoff (c_delayMs (destructure (None :: nat opts option)))
           (c_factor (destructure (None :: nat opts option))) 2
   \<and> slept (snd (retry (\<lambda>i. Throws (Other i) :: (nat, unit) invocation) None)) ! 2
       = of_int \<lfloor>c_delayMs (destructure (None :: nat opts option))
           * c_factor (destructure (None :: nat opts option)) ^ 2\<rfloor>
   \<and> slept (snd (retry (\<lambda>i. Throws (Other i) :: (nat, unit) invocation) None)) ! 2 = 400"
proof -
  have t: "times64 100 2 = 200" "times64 200 2 = 400" "times64 400 2 = 800"
    by code_simp+
  have r: "round64 100 = 100" "round64 2 = 2"
    by code_simp+
  have s: "slept (snd (retry (\<lambda>i. Throws (Other i) :: (nat, unit) invocation) None)) = [100, 200, 400]"
    by (simp add: t retry_def destructure_def no_opts_def loop.simps try_block_def call_onRetry_def
        sleep_def elapse_def fire_def setTimeout_def timer_delay_def init_world_def)
  have d: "c_delayMs (destructure (None :: nat opts option)) = 100"
    "c_factor (destructure (None :: nat opts option)) = 2"
    by (simp_all add: destructure_def no_opts_def)
  have fd: "finite_delays (c_delayMs (destructure (None :: nat opts option)))
      (c_factor (destructure (None :: nat opts option))) 2"
    by (simp add: d finite_delays_def is_double_def r t numeral_2_eq_2 less_Suc_eq)
  have ints: "c_delayMs (destructure (None :: nat opts option)) \<in> \<int>"
    "c_factor (destructure (None :: nat opts option)) \<in> \<int>"
    by (simp_all add: d)
  have bd: "\<forall>j\<le>2. \<bar>c_delayMs (destructure (None :: nat opts option))
      * c_factor (destructure (None :: nat opts option)) ^ j\<bar> < 2 ^ 53"
    by (simp add: d numeral_2_eq_2 le_Suc_eq)
  have l: "2 < length (slept (snd (retry (\<lambda>i. Throws (Other i) :: (nat, unit) invocation) None)))"
    by (simp add: s)
  from backoff_delays_iterated [OF l] fd ints bd
  have "slept (snd (retry (\<lambda>i. Throws (Other i) :: (nat, unit) invocation) None)) ! 2
       = backoff (c_delayMs (destructure (None :: nat opts option)))
           (c_factor (destructure (None :: nat opts option))) 2"
    and "slept (snd (retry (\<lambda>i. Throws (Other i) :: (nat, unit) invocation) None)) ! 2
       = of_int \<lfloor>c_delayMs (destructure (None :: nat opts option))
           * c_factor (destructure (None :: nat opts option)) ^ 2\<rfloor>"
    by blast+
  moreover have "slept (snd (retry (\<lambda>i. Throws (Other i) :: (nat, unit) invocation) None)) ! 2 = 400"
    by (simp add: s)
  ultimately show ?thesis using l by blast
qed

text \<open>
  The closed form fails for a fractional factor: with \<^verbatim>\<open>delayMs = 1\<close> and
  \<^verbatim>\<open>factor = 1.5\<close> the three sleeps are 1, 1, 1, while the closed form for retry 3
  is \<open>\<lfloor>1 * 1.5 ^ 2\<rfloor> = 2\<close>.
\<close>

theorem closed_form_delay_counterexample:
  "slept (snd (retry (\<lambda>i. Throws (Other i) :: (nat, unit) invocation)
      (Some (no_opts\<lparr>delayMs := Some 1, factor := Some (3 / 2)\<rparr>)))) = [1, 1, 1]
   \<and> of_int \<lfloor>(1 :: rat) * (3 / 2) ^ (3 - 1)\<rfloor> = (2 :: rat)"
proof -
  have "\<lfloor>(1 :: rat) * (3 / 2) ^ (3 - 1)\<rfloor> = 2"
    by code_simp
  moreover have f: "\<lfloor>times64 1 (3 / 2)\<rfloor> = 1"
    by code_simp
  moreover have "slept (snd (retry (\<lambda>i. Throws (Other i) :: (nat, unit) invocation)
      (Some (no_opts\<lparr>delayMs := Some 1, factor := Some (3 / 2)\<rparr>)))) = [1, 1, 1]"
    by (simp add: f retry_def destructure_def no_opts_def loop.simps try_block_def call_onRetry_def
        sleep_def elapse_def fire_def setTimeout_def timer_delay_def init_world_def)
  ultimately show ?thesis by simp
qed

text \<open>
  Claim C4, as the code has it. Only a missing \<^verbatim>\<open>timeoutMs\<close> disables the bound: line 22
  tests \<^verbatim>\<open>ms == null\<close>, and then the outcome of an attempt is the operation's own. With
  \<^verbatim>\<open>timeoutMs = 0\<close> the attempt is still raced against a timer, which the runtime fires
  after 1 ms: an operation that settles later than that, or never, fails with
  \<^verbatim>\<open>new Error('timeout')\<close>.
\<close>

theorem zero_timeout_is_a_race:
  "fst (try_block None fn w) =
     (case fn (calls w) of
        Throws e \<Rightarrow> Some (Inl e)
      | Returns Never \<Rightarrow> None
      | Returns (Settles t r) \<Rightarrow> Some r)
   \<and> (fn (calls w) = Returns Never \<or> (\<exists>t r. fn (calls w) = Returns (Settles t r) \<and> 1 < t) \<longrightarrow>
        fst (try_block (Some 0) fn w) = Some (Inl (JsError ''timeout'')))"
proof (intro conjI impI)
  show "fst (try_block None fn w) =
     (case fn (calls w) of
        Throws e \<Rightarrow> Some (Inl e)
      | Returns Never \<Rightarrow> None
      | Returns (Settles t r) \<Rightarrow> Some r)"
    by (simp add: try_block_def withTimeout_def await_def Let_def
        split: invocation.splits promise.splits)
next
  assume "fn (calls w) = Returns Never \<or> (\<exists>t r. fn (calls w) = Returns (Settles t r) \<and> 1 < t)"
  then show "fst (try_block (Some 0) fn w) = Some (Inl (JsError ''timeout''))"
    by (auto simp: try_block_def withTimeout_def await_def race_def timer_delay_def Let_def)
qed

theorem zero_timeout_is_a_race_witness:
  "fst (try_block None (\<lambda>i. Returns (Settles 10 (Inr ''ok''))) (init_world :: unit world))
     = Some (Inr ''ok'')
   \<and> fst (try_block (Some 0) (\<lambda>i. Returns (Settles 10 (Inr ''ok''))) (init_world :: unit world))
     = Some (Inl (JsError ''timeout''))"
  using zero_timeout_is_a_race [of "\<lambda>i. Returns (Settles 10 (Inr ''ok''))" "init_world :: unit world"]
  by simp

text \<open>
  With \<^verbatim>\<open>timeoutMs = 0\<close> an operation that fulfils after 10 ms is rejected with the timeout
  error; the same call without \<^verbatim>\<open>timeoutMs\<close> returns its value.
\<close>

theorem zero_timeout_counterexample:
  "fst (retry (\<lambda>i. Returns (Settles 10 (Inr ''ok''))) (Some (no_opts\<lparr>retries := Some 0, timeoutMs := Some 0\<rparr>)))
     = (Threw_attempt (JsError ''timeout'') :: (unit, string) settlement)
   \<and> fst (retry (\<lambda>i. Returns (Settles 10 (Inr ''ok''))) (Some (no_opts\<lparr>retries := Some 0\<rparr>)))
     = (Fulfilled ''ok'' :: (unit, string) settlement)"
  by (simp add: retry_def destructure_def no_opts_def loop.simps try_block_def call_onRetry_def
      withTimeout_def await_def race_def timer_delay_def)

text \<open>
  Claim C5, as the code has it. When the timer of a configured timeout fires first (the
  operation never settles, or settles after the delay the runtime gives the timer), the
  attempt fails with \<^verbatim>\<open>new Error('timeout')\<close>: a plain \<^verbatim>\<open>Error\<close> that only its message
  tells apart. There is no kind or tag of its own.
\<close>

theorem timeout_is_a_plain_error:
  assumes "fn (calls w) = Returns p"
    and "p = Never \<or> (\<exists>t r. p = Settles t r \<and> timer_delay m < t)"
  shows "fst (try_block (Some m) fn w) = Some (Inl (JsError ''timeout''))"
  using assms
  by (auto simp: try_block_def withTimeout_def await_def race_def Let_def)

theorem timeout_is_a_plain_error_witness:
  "fst (try_block (Some 50) (\<lambda>i. Returns (Settles 200 (Inr ''late''))) (init_world :: unit world))
     = Some (Inl (JsError ''timeout''))"
  using timeout_is_a_plain_error [of "\<lambda>i. Returns (Settles 200 (Inr ''late''))"
      "init_world :: unit world" "Settles 200 (Inr ''late'')" 50]
  by (simp add: timer_delay_def)

text \<open>
  An operation that rejects with its own \<^verbatim>\<open>new Error('timeout')\<close> before the deadline and an
  operation that never settles end the call with the same rejection.
\<close>

theorem timeout_kind_counterexample:
  "fst (retry (\<lambda>i. Returns Never) (Some (no_opts\<lparr>retries := Some 0, timeoutMs := Some 50\<rparr>)))
     = (Threw_attempt (JsError ''timeout'') :: (unit, unit) settlement)
   \<and> fst (retry (\<lambda>i. Returns (Settles 1 (Inl (JsError ''timeout''))))
        (Some (no_opts\<lparr>retries := Some 0, timeoutMs := Some 50\<rparr>)))
     = (Threw_attempt (JsError ''timeout'') :: (unit, unit) settlement)"
  by (simp add: retry_def destructure_def no_opts_def loop.simps try_block_def call_onRetry_def
      withTimeout_def await_def race_def timer_delay_def)

text \<open>
  Claim C7, as the code has it. For every natural number of retries \<open>r\<close> the \<^verbatim>\<open>throw\<close> of
  line 39 is never reached, and the call ends in exactly one of four ways: it returns the
  value of an attempt that succeeded; it rejects with the error of attempt \<open>r + 1\<close>, after
  \<open>r + 1\<close> calls of the factory; it rejects with a value thrown by \<^verbatim>\<open>onRetry\<close> after a
  failure that was not the last; or it never settles, because an attempt never settles
  (which needs a call without \<^verbatim>\<open>timeoutMs\<close>). The constructors of \<open>settlement\<close> are
  distinct, so the four exclude each other.
\<close>

theorem retry_outcomes:
  assumes "c_retries (destructure opts) = of_nat r"
  shows "fst (retry fn opts) \<noteq> Threw_fallback
       \<and> ((\<exists>v i. i \<le> r \<and> fst (retry fn opts) = Fulfilled v
              \<and> attempt_outcome (c_timeoutMs (destructure opts)) (fn i) = Some (Inr v))
          \<or> (\<exists>e. fst (retry fn opts) = Threw_attempt e
              \<and> attempt_outcome (c_timeoutMs (destructure opts)) (fn r) = Some (Inl e)
              \<and> calls (snd (retry fn opts)) = r + 1)
          \<or> (\<exists>x i e f. i < r \<and> fst (retry fn opts) = Threw_onRetry x
              \<and> attempt_outcome (c_timeoutMs (destructure opts)) (fn i) = Some (Inl e)
              \<and> c_onRetry (destructure opts) = Some f \<and> f e (i + 1) = Some x)
          \<or> (\<exists>i. i \<le> r \<and> fst (retry fn opts) = Pending
              \<and> attempt_outcome (c_timeoutMs (destructure opts)) (fn i) = None))"
proof -
  let ?c = "destructure opts"
  have r: "retry fn opts = loop ?c fn 0 (c_delayMs ?c) init_world"
    by (simp add: retry_def Let_def)
  have four: "(\<exists>v i. i \<le> r \<and> fst (retry fn opts) = Fulfilled v
              \<and> attempt_outcome (c_timeoutMs (destructure opts)) (fn i) = Some (Inr v))
          \<or> (\<exists>e. fst (retry fn opts) = Threw_attempt e
              \<and> attempt_outcome (c_timeoutMs (destructure opts)) (fn r) = Some (Inl e)
              \<and> calls (snd (retry fn opts)) = r + 1)
          \<or> (\<exists>x i e f. i < r \<and> fst (retry fn opts) = Threw_onRetry x
              \<and> attempt_outcome (c_timeoutMs (destructure opts)) (fn i) = Some (Inl e)
              \<and> c_onRetry (destructure opts) = Some f \<and> f e (i + 1) = Some x)
          \<or> (\<exists>i. i \<le> r \<and> fst (retry fn opts) = Pending
              \<and> attempt_outcome (c_timeoutMs (destructure opts)) (fn i) = None)"
    using loop_classified [OF assms, of init_world 0 fn "c_delayMs ?c"]
    unfolding r by (simp add: init_world_obs)
  then have "fst (retry fn opts) \<noteq> Threw_fallback"
    by auto
  with four show ?thesis by simp
qed

theorem retry_outcomes_witness:
  "c_retries (destructure (Some (no_opts\<lparr>retries := Some 1\<rparr>) :: nat opts option)) = of_nat 1
   \<and> fst (retry (\<lambda>i. if i < 1 then Throws (Other i) else Returns (Settles 3 (Inr ''ok'')))
        (Some (no_opts\<lparr>retries := Some 1\<rparr>)))
     \<noteq> (Threw_fallback :: (nat, string) settlement)"
proof -
  have h: "c_retries (destructure (Some (no_opts\<lparr>retries := Some 1\<rparr>) :: nat opts option)) = of_nat 1"
    by (simp add: destructure_def no_opts_def)
  from retry_outcomes [OF h,
      of "\<lambda>i. if i < 1 then Throws (Other i) else Returns (Settles 3 (Inr ''ok''))"]
  have "fst (retry (\<lambda>i. if i < 1 then Throws (Other i) else Returns (Settles 3 (Inr ''ok'')))
        (Some (no_opts\<lparr>retries := Some 1\<rparr>)))
     \<noteq> (Threw_fallback :: (nat, string) settlement)"
    by (rule conjunct1)
  with h show ?thesis by (rule conjI)
qed

text \<open>
  The two outcomes of the claim are not all: with \<open>r = 0\<close> and an operation that never
  settles the call stays pending; with \<open>r = 1\<close> and an observer that throws the call
  rejects with the observer's value; and with the fractional \<^verbatim>\<open>retries = 0.5\<close>, which is
  not negative, \<^verbatim>\<open>attempt === retries\<close> never holds and line 39 is reached.
\<close>

theorem two_outcomes_counterexample:
  "fst (retry (\<lambda>i. Returns Never) (Some (no_opts\<lparr>retries := Some 0\<rparr>)))
     = (Pending :: (unit, unit) settlement)
   \<and> fst (retry (\<lambda>i. Throws (Other ()))
        (Some (no_opts\<lparr>retries := Some 1, onRetry := Some (\<lambda>e n. Some (JsError ''observer''))\<rparr>)))
     = (Threw_onRetry (JsError ''observer'') :: (unit, unit) settlement)
   \<and> fst (retry (\<lambda>i. Throws (Other ())) (Some (no_opts\<lparr>retries := Some (1 / 2)\<rparr>)))
     = (Threw_fallback :: (unit, unit) settlement)"
  by (simp add: retry_def destructure_def no_opts_def loop.simps try_block_def call_onRetry_def
      withTimeout_def await_def)

text \<open>
  Claim C9, as the code has it. The source never clears a timer. When the timer of the
  timeout fires first, it has left the schedule by firing. When the operation settles
  strictly before the timer is due (after the delay the runtime gives it), the timer of
  that race is still scheduled once the race is decided, and stays so until it is due.
\<close>

theorem timeout_timer_is_never_cleared:
  assumes "fn (calls w) = Returns p"
  shows "((\<exists>t r. p = Settles t r \<and> t < timer_delay m) \<longrightarrow>
            (Deadline, clock w + timer_delay m) \<in> set (timers (snd (try_block (Some m) fn w))))
       \<and> (p = Never \<or> (\<exists>t r. p = Settles t r \<and> timer_delay m < t) \<longrightarrow>
            (Deadline, clock w + timer_delay m) \<notin> set (timers (snd (try_block (Some m) fn w))))"
proof (intro conjI impI)
  assume "\<exists>t r. p = Settles t r \<and> t < timer_delay m"
  then obtain t r where p: "p = Settles t r" and lt: "t < timer_delay m"
    by blast
  from lt have "race p (timer_delay m) (Inl (JsError ''timeout'')) = By_operation (Settles t r)"
    by (simp add: race_def p)
  then have "snd (try_block (Some m) fn w) = elapse t (setTimeout Deadline m (w\<lparr>calls := calls w + 1\<rparr>))"
    by (simp add: try_block_race [where fn = fn and w = w and p = p, OF assms] await_def)
  with lt show "(Deadline, clock w + timer_delay m) \<in> set (timers (snd (try_block (Some m) fn w)))"
    by (simp add: timers_after_race)
next
  assume "p = Never \<or> (\<exists>t r. p = Settles t r \<and> timer_delay m < t)"
  then have "race p (timer_delay m) (Inl (JsError ''timeout''))
      = By_timer (timer_delay m) (Inl (JsError ''timeout''))"
    by (auto simp: race_def)
  then have "snd (try_block (Some m) fn w)
      = fire (elapse (timer_delay m) (setTimeout Deadline m (w\<lparr>calls := calls w + 1\<rparr>)))"
    by (simp add: try_block_race [where fn = fn and w = w and p = p, OF assms] await_def)
  then show "(Deadline, clock w + timer_delay m) \<notin> set (timers (snd (try_block (Some m) fn w)))"
    by (simp add: timers_after_race)
qed

theorem timeout_timer_is_never_cleared_witness:
  "(Deadline, 50) \<in> set (timers (snd (try_block (Some 50)
       (\<lambda>i. Returns (Settles 5 (Inr ''ok''))) (init_world :: unit world))))
   \<and> (Deadline, 50) \<notin> set (timers (snd (try_block (Some 50)
       (\<lambda>i. Returns (Settles 200 (Inr ''late''))) (init_world :: unit world))))"
  using timeout_timer_is_never_cleared [of "\<lambda>i. Returns (Settles 5 (Inr ''ok''))"
      "init_world :: unit world" "Settles 5 (Inr ''ok'')" 50]
    timeout_timer_is_never_cleared [of "\<lambda>i. Returns (Settles 200 (Inr ''late''))"
      "init_world :: unit world" "Settles 200 (Inr ''late'')" 50]
  by (simp add: init_world_obs timer_delay_def)

text \<open>
  A call with \<^verbatim>\<open>timeoutMs = 50\<close> whose operation fulfils after 5 ms returns at time 5 with
  the timer for time 50 still scheduled.
\<close>

theorem dangling_timer_counterexample:
  "fst (retry (\<lambda>i. Returns (Settles 5 (Inr ''ok''))) (Some (no_opts\<lparr>timeoutMs := Some 50\<rparr>)))
     = (Fulfilled ''ok'' :: (unit, string) settlement)
   \<and> clock (snd (retry (\<lambda>i. Returns (Settles 5 (Inr ''ok'')) :: (unit, string) invocation)
        (Some (no_opts\<lparr>timeoutMs := Some 50\<rparr>)))) = 5
   \<and> timers (snd (retry (\<lambda>i. Returns (Settles 5 (Inr ''ok'')) :: (unit, string) invocation)
        (Some (no_opts\<lparr>timeoutMs := Some 50\<rparr>)))) = [(Deadline, 50)]"
  by (simp add: retry_def destructure_def no_opts_def loop.simps try_block_def call_onRetry_def
      withTimeout_def await_def race_def elapse_def fire_def setTimeout_def timer_delay_def init_world_def)

end
